theory Spec2Isabelle
  imports Complex_Main "HOL-Library.Word" "HOL-Library.AList"
begin

section \<open>Python values\<close>

text \<open>
  A Python \<open>str\<close> is a sequence of Unicode code points; a code point is a natural
  number. Literals of the source are written with \<open>lit\<close>.
\<close>

type_synonym str = "nat list"

definition lit :: "string \<Rightarrow> str" where
  "lit s = map of_char s"

type_synonym byte = "8 word"

text \<open>The exceptions the modelled code can raise.\<close>

datatype py_error =
  ValueError | TypeError | IndexError | KeyError | AttributeError
  | OverflowError | FileNotFoundError | ParsingError

text \<open>
  The values stored in an extracted reading: the raw text token, an \<open>int\<close> or a
  \<open>float\<close>. A float is represented by the real number it denotes; rounding,
  infinities and NaN are not represented.
\<close>

datatype pyval = VStr str | VInt int | VFloat real

type_synonym reading = "str \<rightharpoonup> pyval"

text \<open>
  The library functions the helpers call on text, taken as parameters:
  \<open>int(s)\<close> and \<open>float(s)\<close> (\<open>None\<close> is \<open>ValueError\<close>),
  \<open>datetime.strptime(s, '%Y%m%d%H%M%S').timestamp()\<close> (\<open>None\<close> is
  \<open>ValueError\<close>) and \<open>datetime.utcnow().timestamp()\<close>.
\<close>

record builtins =
  int_of_str :: "str \<Rightarrow> int option"
  float_of_str :: "str \<Rightarrow> real option"
  strptime_ts :: "str \<Rightarrow> real option"
  utcnow_ts :: real

text \<open>
  \<open>float(n)\<close> of an \<open>int\<close>: raises \<open>OverflowError\<close> when \<open>n\<close> rounds
  beyond the largest double.
\<close>

definition float_of_int :: "int \<Rightarrow> py_error + real" where
  "float_of_int n =
     (if 2 ^ 1024 - 2 ^ 970 \<le> \<bar>n\<bar> then Inl OverflowError else Inr (real_of_int n))"

text \<open>
  \<open>str.lower\<close>, on the ASCII letters. The names it is compared with below are all
  ASCII, and no other code point is lowered to a letter that occurs in them.
\<close>

definition lower_cp :: "nat \<Rightarrow> nat" where
  "lower_cp c = (if 65 \<le> c \<and> c \<le> 90 then c + 32 else c)"

definition lower :: "str \<Rightarrow> str" where
  "lower s = map lower_cp s"

text \<open>\<open>s.split(sep)\<close> for a one-character separator.\<close>

fun split :: "nat \<Rightarrow> str \<Rightarrow> str list" where
  "split sep [] = [[]]"
| "split sep (c # cs) =
     (if c = sep then [] # split sep cs
      else (case split sep cs of
              [] \<Rightarrow> [[c]]
            | t # ts \<Rightarrow> (c # t) # ts))"

definition comma :: nat where
  "comma = 44"

text \<open>\<open>xs[i]\<close> for \<open>i \<ge> 0\<close>, and \<open>xs.pop()\<close>.\<close>

definition index :: "'a list \<Rightarrow> nat \<Rightarrow> py_error + 'a" where
  "index xs i = (if i < length xs then Inr (xs ! i) else Inl IndexError)"

definition pop :: "'a list \<Rightarrow> py_error + ('a \<times> 'a list)" where
  "pop xs = (if xs = [] then Inl IndexError else Inr (last xs, butlast xs))"

section \<open>helpers.py: time conversions\<close>

text \<open>
  \<open>convert_marine_time\<close> falls back to the current time when \<open>strptime\<close> raises
  \<open>ValueError\<close>. In \<open>convert_gps_time\<close> the call \<open>float(gpsweek)\<close> can raise
  \<open>OverflowError\<close>; \<open>float(gpsweekseconds)\<close> of a float is that float.
\<close>

definition convert_marine_time :: "builtins \<Rightarrow> str \<Rightarrow> real" where
  "convert_marine_time b meter_time =
     (case strptime_ts b meter_time of
        Some t \<Rightarrow> t
      | None \<Rightarrow> utcnow_ts b)"

definition convert_gps_time :: "int \<Rightarrow> real \<Rightarrow> py_error + real" where
  "convert_gps_time gpsweek gpsweekseconds =
     (let gps_delta = 315964800;
          gpsweek_cf = 604800
      in case float_of_int gpsweek of
           Inl e \<Rightarrow> Inl e
         | Inr w \<Rightarrow>
             (let gps_ticks = (w * gpsweek_cf) + gpsweekseconds;
                  timestamp = gps_delta + gps_ticks
              in Inr timestamp))"

section \<open>helpers.py: field extraction\<close>

text \<open>The two field layouts.\<close>

definition marine_fieldmap :: "str list" where
  "marine_fieldmap = map lit
     [''header'', ''gravity'', ''long_acc'', ''cross_acc'', ''beam'',
      ''s_temperature'', ''pressure'', ''e_temperature'',
      ''vcc'', ''ve'', ''al'', ''ax'', ''status'', ''checksum'',
      ''latitude'', ''longitude'', ''speed'', ''course'', ''datetime'']"

definition airborne_fieldmap :: "str list" where
  "airborne_fieldmap = map lit
     [''header'', ''gravity'', ''long_acc'', ''cross_acc'', ''beam'',
      ''s_temperature'', ''status'', ''pressure'', ''e_temperature'',
      ''latitude'', ''longitude'']"

text \<open>
  The table \<open>_field_casts\<close>; a field that is not in it is cast with \<open>int\<close>
  (\<open>_field_casts.get(field, int)\<close>).
\<close>

datatype caster = Cast_str | Cast_float | Cast_int | Cast_marine_time

definition field_casts :: "(str \<times> caster) list" where
  "field_casts =
     [(lit ''header'', Cast_str),
      (lit ''latitude'', Cast_float),
      (lit ''longitude'', Cast_float),
      (lit ''speed'', Cast_float),
      (lit ''course'', Cast_float),
      (lit ''datetime'', Cast_marine_time)]"

definition get_cast :: "str \<Rightarrow> caster" where
  "get_cast field = (case map_of field_casts field of Some c \<Rightarrow> c | None \<Rightarrow> Cast_int)"

fun call_cast :: "builtins \<Rightarrow> caster \<Rightarrow> str \<Rightarrow> py_error + pyval" where
  "call_cast b Cast_str tok = Inr (VStr tok)"
| "call_cast b Cast_float tok =
     (case float_of_str b tok of None \<Rightarrow> Inl ValueError | Some x \<Rightarrow> Inr (VFloat x))"
| "call_cast b Cast_int tok =
     (case int_of_str b tok of None \<Rightarrow> Inl ValueError | Some n \<Rightarrow> Inr (VInt n))"
| "call_cast b Cast_marine_time tok = Inr (VFloat (convert_marine_time b tok))"

text \<open>
  The expression \<open>_field_casts.get(field, int)(data[i])\<close>: the subscript is
  evaluated before the call.
\<close>

definition cast_field :: "builtins \<Rightarrow> str \<Rightarrow> str list \<Rightarrow> nat \<Rightarrow> py_error + pyval" where
  "cast_field b field data i =
     (case index data i of
        Inl e \<Rightarrow> Inl e
      | Inr tok \<Rightarrow> call_cast b (get_cast field) tok)"

text \<open>
  The loop \<open>for i, field in enumerate(_marine_fieldmap)\<close> of the marine
  extractor, on the remaining \<open>(i, field)\<close> pairs. \<open>Inr None\<close> is the
  \<open>return None\<close> of the \<open>except IndexError\<close> handler; \<open>Inl\<close> is an
  exception that no handler catches.
\<close>

fun marine_loop ::
  "builtins \<Rightarrow> str list \<Rightarrow> str list \<Rightarrow> (nat \<times> str) list \<Rightarrow> reading
     \<Rightarrow> py_error + reading option" where
  "marine_loop b data wanted [] extracted = Inr (Some extracted)"
| "marine_loop b data wanted ((i, field) # rest) extracted =
     (if lower field \<in> set wanted then
        (case cast_field b (lower field) data i of
           Inr v \<Rightarrow> marine_loop b data wanted rest (extracted(field \<mapsto> v))
         | Inl ValueError \<Rightarrow>
             (case index data i of
                Inr tok \<Rightarrow> marine_loop b data wanted rest (extracted(field \<mapsto> VStr tok))
              | Inl e \<Rightarrow> Inl e)
         | Inl IndexError \<Rightarrow> Inr None
         | Inl e \<Rightarrow> Inl e)
      else marine_loop b data wanted rest extracted)"

text \<open>
  The loop of the airborne extractor, which rebinds \<open>field = field.lower()\<close>
  first and uses the lowered name as the key.
\<close>

fun airborne_loop ::
  "builtins \<Rightarrow> str list \<Rightarrow> str list \<Rightarrow> (nat \<times> str) list \<Rightarrow> reading
     \<Rightarrow> py_error + reading option" where
  "airborne_loop b data wanted [] extracted = Inr (Some extracted)"
| "airborne_loop b data wanted ((i, field0) # rest) extracted =
     (let field = lower field0
      in if field \<in> set wanted then
           (case cast_field b field data i of
              Inr v \<Rightarrow> airborne_loop b data wanted rest (extracted(field \<mapsto> v))
            | Inl ValueError \<Rightarrow>
                (case index data i of
                   Inr tok \<Rightarrow> airborne_loop b data wanted rest (extracted(field \<mapsto> VStr tok))
                 | Inl e \<Rightarrow> Inl e)
            | Inl IndexError \<Rightarrow> Inr None
            | Inl e \<Rightarrow> Inl e)
         else airborne_loop b data wanted rest extracted)"

definition extract_marine_fields ::
  "builtins \<Rightarrow> str \<Rightarrow> str list \<Rightarrow> py_error + reading option" where
  "extract_marine_fields b line wanted =
     (let data = split comma line
      in if \<not> (length data = length marine_fieldmap) then Inr None
         else marine_loop b data wanted (enumerate 0 marine_fieldmap) Map.empty)"

text \<open>
  The airborne extractor. \<open>float(data.pop())\<close> and \<open>int(data.pop())\<close> sit in a
  \<open>try\<close> whose handler catches \<open>ValueError\<close> and \<open>TypeError\<close> only.
\<close>

definition gps_handler :: "py_error \<Rightarrow> py_error + 'a option" where
  "gps_handler e = (if e = ValueError \<or> e = TypeError then Inr None else Inl e)"

definition extract_airborne_fields ::
  "builtins \<Rightarrow> str \<Rightarrow> str list \<Rightarrow> py_error + reading option" where
  "extract_airborne_fields b line wanted =
     (let data = split comma line
      in if \<not> (length data = length airborne_fieldmap + 2) then Inr None
         else
           (case pop data of
              Inl e \<Rightarrow> gps_handler e
            | Inr (tok_s, data1) \<Rightarrow>
                (case float_of_str b tok_s of
                   None \<Rightarrow> gps_handler ValueError
                 | Some gpssecond \<Rightarrow>
                     (case pop data1 of
                        Inl e \<Rightarrow> gps_handler e
                      | Inr (tok_w, data2) \<Rightarrow>
                          (case int_of_str b tok_w of
                             None \<Rightarrow> gps_handler ValueError
                           | Some gpsweek \<Rightarrow>
                               (case convert_gps_time gpsweek gpssecond of
                                  Inl e \<Rightarrow> gps_handler e
                                | Inr dt \<Rightarrow>
                                    (case airborne_loop b data2 wanted
                                            (enumerate 0 airborne_fieldmap) Map.empty of
                                       Inl e \<Rightarrow> Inl e
                                     | Inr None \<Rightarrow> Inr None
                                     | Inr (Some extracted) \<Rightarrow>
                                         Inr (Some (extracted(lit ''datetime'' \<mapsto> VFloat dt))))))))))"

text \<open>
  The value the \<open>try\<close> statement of the extraction loops stores for a field: the
  result of the cast, or the raw token when the cast raises \<open>ValueError\<close>.
\<close>

definition stored :: "builtins \<Rightarrow> str \<Rightarrow> str \<Rightarrow> pyval" where
  "stored b field tok =
     (case call_cast b (get_cast field) tok of Inr v \<Rightarrow> v | Inl e \<Rightarrow> VStr tok)"

text \<open>
  The per-field rule as the specification words it: header to text; latitude,
  longitude, speed and course to floating point; datetime through the instrument-time
  conversion; every other field to integer; the raw token where the numeric cast fails.
\<close>

definition cast_rule :: "builtins \<Rightarrow> str \<Rightarrow> str \<Rightarrow> pyval" where
  "cast_rule b field tok =
     (if field = lit ''header'' then VStr tok
      else if field \<in> {lit ''latitude'', lit ''longitude'', lit ''speed'', lit ''course''}
      then (case float_of_str b tok of Some x \<Rightarrow> VFloat x | None \<Rightarrow> VStr tok)
      else if field = lit ''datetime'' then VFloat (convert_marine_time b tok)
      else (case int_of_str b tok of Some n \<Rightarrow> VInt n | None \<Rightarrow> VStr tok))"

text \<open>\<open>str.upper\<close>, on the ASCII letters, and \<open>get_extractor\<close>.\<close>

definition upper_cp :: "nat \<Rightarrow> nat" where
  "upper_cp c = (if 97 \<le> c \<and> c \<le> 122 then c - 32 else c)"

definition upper :: "str \<Rightarrow> str" where
  "upper s = map upper_cp s"

definition get_extractor ::
  "builtins \<Rightarrow> str \<Rightarrow> str \<Rightarrow> str list \<Rightarrow> py_error + reading option" where
  "get_extractor b sensor_type =
     (if upper sensor_type = lit ''AT1M'' then extract_marine_fields b
      else extract_airborne_fields b)"

section \<open>helpers.py: decoding a line\<close>

definition ILLEGAL_CHARS :: "int list" where
  "ILLEGAL_CHARS = map int [0..<32] @ [255, 256]"

text \<open>The objects \<open>decode_bytearr\<close> is called with.\<close>

datatype pyobj = PyStr str | PyBytes "byte list" | PyInt int | PyNone

text \<open>
  \<open>bytes([c for c in bytearr if c not in ILLEGAL_CHARS])\<close>. Iterating an \<open>int\<close> or
  \<open>None\<close> raises \<open>TypeError\<close>; the characters of a text pass the filter and
  \<open>bytes\<close> rejects them with \<open>TypeError\<close>.
\<close>

definition legal_bytes :: "pyobj \<Rightarrow> py_error + byte list" where
  "legal_bytes bytearr =
     (case bytearr of
        PyBytes bs \<Rightarrow> Inr (filter (\<lambda>c. uint c \<notin> set ILLEGAL_CHARS) bs)
      | PyStr s \<Rightarrow> (if s = [] then Inr [] else Inl TypeError)
      | PyInt n \<Rightarrow> Inl TypeError
      | PyNone \<Rightarrow> Inl TypeError)"

text \<open>
  \<open>raw.decode('utf-8', errors='ignore')\<close>, on the byte values. \<open>utf8_next\<close>
  reads one sequence that starts with the byte \<open>b\<close>: a well-formed sequence gives
  its code point; an ill-formed one is dropped up to the byte that breaks it, and a
  truncated one at the end of the input is dropped whole. The result is the code
  point, if any, and the input left.
\<close>

definition cont :: "nat \<Rightarrow> bool" where
  "cont c = (128 \<le> c \<and> c < 192)"

definition utf8_next :: "nat \<Rightarrow> nat list \<Rightarrow> nat option \<times> nat list" where
  "utf8_next b bs =
     (if b < 128 then (Some b, bs)
      else if b < 194 then (None, bs)
      else if b < 224 then
        (case bs of
           [] \<Rightarrow> (None, [])
         | c1 # r1 \<Rightarrow>
             if cont c1 then (Some ((b - 192) * 64 + (c1 - 128)), r1)
             else (None, bs))
      else if b < 240 then
        (case bs of
           [] \<Rightarrow> (None, [])
         | c1 # r1 \<Rightarrow>
             if \<not> cont c1 \<or> (b = 224 \<and> c1 < 160) \<or> (b = 237 \<and> 160 \<le> c1)
             then (None, bs)
             else
               (case r1 of
                  [] \<Rightarrow> (None, [])
                | c2 # r2 \<Rightarrow>
                    if cont c2
                    then (Some ((b - 224) * 4096 + (c1 - 128) * 64 + (c2 - 128)), r2)
                    else (None, r1)))
      else if b < 245 then
        (case bs of
           [] \<Rightarrow> (None, [])
         | c1 # r1 \<Rightarrow>
             if \<not> cont c1 \<or> (b = 240 \<and> c1 < 144) \<or> (b = 244 \<and> 144 \<le> c1)
             then (None, bs)
             else
               (case r1 of
                  [] \<Rightarrow> (None, [])
                | c2 # r2 \<Rightarrow>
                    if \<not> cont c2 then (None, r1)
                    else
                      (case r2 of
                         [] \<Rightarrow> (None, [])
                       | c3 # r3 \<Rightarrow>
                           if cont c3
                           then (Some ((b - 240) * 262144 + (c1 - 128) * 4096
                                        + (c2 - 128) * 64 + (c3 - 128)), r3)
                           else (None, r2))))
      else (None, bs))"

function utf8_ignore :: "nat list \<Rightarrow> str" where
  "utf8_ignore [] = []"
| "utf8_ignore (b # bs) =
     (case utf8_next b bs of
        (None, rest) \<Rightarrow> utf8_ignore rest
      | (Some c, rest) \<Rightarrow> c # utf8_ignore rest)"
  by pat_completeness auto
termination
proof (relation "measure length")
  have shorter: "length (snd (utf8_next b bs)) \<le> length bs" for b bs
    unfolding utf8_next_def by (simp split: list.split)
  show "wf (measure length)" by simp
  show "(rest, b # bs) \<in> measure length"
    if "(x, rest) = utf8_next b bs" for b bs x rest
    using shorter [of b bs] that [symmetric] by simp
  show "(rest, b # bs) \<in> measure length"
    if "(x, rest) = utf8_next b bs" "x = Some c" for b bs x rest c
    using shorter [of b bs] that(1) [symmetric] by simp
qed

text \<open>\<open>s.strip(chars)\<close>.\<close>

definition strip :: "nat list \<Rightarrow> str \<Rightarrow> str" where
  "strip chars s =
     rev (dropWhile (\<lambda>c. c \<in> set chars) (rev (dropWhile (\<lambda>c. c \<in> set chars) s)))"

text \<open>
  \<open>Inr None\<close> is the value \<open>None\<close> of the \<open>except AttributeError\<close> handler; any
  other exception leaves the function.
\<close>

definition decode_bytearr :: "pyobj \<Rightarrow> py_error + str option" where
  "decode_bytearr bytearr =
     (case bytearr of
        PyStr s \<Rightarrow> Inr (Some s)
      | _ \<Rightarrow>
          (case legal_bytes bytearr of
             Inr raw \<Rightarrow> Inr (Some (strip [13, 10] (utf8_ignore (map unat raw))))
           | Inl AttributeError \<Rightarrow> Inr None
           | Inl e \<Rightarrow> Inl e))"

section \<open>helpers.py: the meter configuration\<close>












section \<open>client.py: the serial listener\<close>

text \<open>\<open>bytes.find\<close> of one byte: the first index, \<open>None\<close> for \<open>-1\<close>.\<close>

fun find_byte :: "byte \<Rightarrow> byte list \<Rightarrow> nat option" where
  "find_byte x [] = None"
| "find_byte x (y # ys) =
     (if y = x then Some 0 else map_option Suc (find_byte x ys))"

text \<open>
  The device is the list of chunks that the successive calls of \<open>read\<close> return;
  the exit signal is set once the list is used up. The \<open>while\<close> loop of
  \<open>readline\<close> returns the value, the new buffer and the chunks not read yet.
\<close>

fun read_loop :: "byte list \<Rightarrow> byte list list \<Rightarrow> pyobj \<times> byte list \<times> byte list list" where
  "read_loop buffer [] = (PyBytes [], buffer, [])"
| "read_loop buffer (data # reads) =
     (if data = [] then (PyStr [], buffer, reads)
      else
        (case find_byte 10 data of
           Some i \<Rightarrow> (PyBytes (buffer @ take (i + 1) data), drop (i + 1) data, reads)
         | None \<Rightarrow> read_loop (buffer @ data) reads))"

definition readline :: "byte list \<Rightarrow> byte list list \<Rightarrow> pyobj \<times> byte list \<times> byte list list" where
  "readline buffer reads =
     (case find_byte 10 buffer of
        Some i \<Rightarrow> (PyBytes (take (i + 1) buffer), drop (i + 1) buffer, reads)
      | None \<Rightarrow> read_loop buffer reads)"

text \<open>
  \<open>listen\<close>: the buffer and the queue on entry, and the chunks the device will
  deliver; the result is the buffer and the queue when the exit signal is set.
\<close>

function listen ::
  "byte list \<Rightarrow> str list \<Rightarrow> byte list list \<Rightarrow> py_error + (byte list \<times> str list)" where
  "listen buffer queue reads =
     (if reads = [] then Inr (buffer, queue)
      else
        (case readline buffer reads of
           (got, buffer', reads') \<Rightarrow>
             (case decode_bytearr got of
                Inl e \<Rightarrow> Inl e
              | Inr line \<Rightarrow>
                  if line = None \<or> line = Some [] then listen buffer' queue reads'
                  else listen buffer' (queue @ [the line]) reads')))"
  by pat_completeness auto
termination
proof (relation "measures [\<lambda>(buffer, queue, reads). length reads,
                           \<lambda>(buffer, queue, reads). length buffer]")
  have find_le: "find_byte x ys = Some i \<Longrightarrow> i < length ys" for x :: byte and ys i
    by (induction ys arbitrary: i) (auto split: if_splits)
  have loop: "reads \<noteq> [] \<Longrightarrow> read_loop buffer reads = (got, buffer', reads')
              \<Longrightarrow> length reads' < length reads" for buffer reads got buffer' reads'
  proof (induction buffer reads rule: read_loop.induct)
    case (1 buffer)
    then show ?case by simp
  next
    case (2 buffer data reads)
    then show ?case
      by (cases reads) (auto split: if_splits option.splits)
  qed
  have step: "reads \<noteq> [] \<Longrightarrow> readline buffer reads = (got, buffer', reads')
              \<Longrightarrow> length reads' < length reads
                  \<or> (length reads' = length reads \<and> length buffer' < length buffer)"
    for buffer reads got buffer' reads'
    using loop [of reads buffer got buffer' reads'] find_le [of 10 buffer]
    by (auto simp: readline_def split: option.splits)
  show "wf (measures [\<lambda>(buffer, queue, reads). length reads,
                      \<lambda>(buffer, queue, reads). length buffer])"
    by simp
  show "((buffer', queue, reads'), (buffer, queue, reads))
          \<in> measures [\<lambda>(buffer, queue, reads). length reads,
                       \<lambda>(buffer, queue, reads). length buffer]"
    if "reads \<noteq> []" "(got, rest) = readline buffer reads" "(buffer', reads') = rest"
    for buffer queue reads got rest buffer' reads'
    using step [of reads buffer got buffer' reads'] that by auto
  show "((buffer', queue @ [the line], reads'), (buffer, queue, reads))
          \<in> measures [\<lambda>(buffer, queue, reads). length reads,
                       \<lambda>(buffer, queue, reads). length buffer]"
    if "reads \<noteq> []" "(got, rest) = readline buffer reads" "(buffer', reads') = rest"
    for buffer queue reads got rest buffer' reads' line
    using step [of reads buffer got buffer' reads'] that by auto
qed

declare listen.simps [simp del]

section \<open>client.py: talking to the collector\<close>

text \<open>
  A decoded JSON body; \<open>JNull\<close> is Python's \<open>None\<close>. The items of \<open>JDict\<close> are
  those of the decoded dictionary, so their keys are distinct.
\<close>

datatype json =
  JNull | JBool bool | JInt int | JFloat real | JStr str
  | JList "json list" | JDict "(str \<times> json) list"

text \<open>
  The outcome of a request followed by \<open>response.json()\<close>: the request raises
  \<open>ConnectionError\<close>, or the body of the response (with its status code) is not
  JSON, or it decodes.
\<close>

datatype http_result = ConnectionError | JSONDecodeError nat | Response nat json

text \<open>\<open>d.get(key, default)\<close>, \<open>d[key]\<close> and the truth value of an object.\<close>

definition dict_get :: "json \<Rightarrow> str \<Rightarrow> json \<Rightarrow> py_error + json" where
  "dict_get d key dflt =
     (case d of
        JDict items \<Rightarrow> Inr (case map_of items key of Some v \<Rightarrow> v | None \<Rightarrow> dflt)
      | _ \<Rightarrow> Inl AttributeError)"

definition subscript :: "json \<Rightarrow> str \<Rightarrow> py_error + json" where
  "subscript d key =
     (case d of
        JDict items \<Rightarrow> (case map_of items key of Some v \<Rightarrow> Inr v | None \<Rightarrow> Inl KeyError)
      | _ \<Rightarrow> Inl TypeError)"

fun truthy :: "json \<Rightarrow> bool" where
  "truthy JNull = False"
| "truthy (JBool t) = t"
| "truthy (JInt n) = (n \<noteq> 0)"
| "truthy (JFloat x) = (x \<noteq> 0)"
| "truthy (JStr s) = (s \<noteq> [])"
| "truthy (JList xs) = (xs \<noteq> [])"
| "truthy (JDict items) = (items \<noteq> [])"

text \<open>
  \<open>establish_connection\<close>, given the outcome of the lookup (\<open>session.get\<close>) and the
  outcome the registration (\<open>session.put\<close>) has if it is made.
\<close>

definition establish_connection :: "http_result \<Rightarrow> http_result \<Rightarrow> py_error + json" where
  "establish_connection lookup registration =
     (case lookup of
        ConnectionError \<Rightarrow> Inr JNull
      | JSONDecodeError status_code \<Rightarrow> Inr JNull
      | Response status_code data \<Rightarrow>
          if status_code \<noteq> 200 then Inr JNull
          else
            (case subscript data (lit ''Exists'') of
               Inl e \<Rightarrow> Inl e
             | Inr exists \<Rightarrow>
                 if truthy exists then dict_get data (lit ''SensorID'') JNull
                 else
                   (case registration of
                      ConnectionError \<Rightarrow> Inr JNull
                    | JSONDecodeError status_code2 \<Rightarrow> Inr JNull
                    | Response status_code2 data2 \<Rightarrow>
                        dict_get data2 (lit ''SensorID'') JNull)))"

section \<open>client.py: the HTTP sender\<close>

definition sender_fields :: "str list" where
  "sender_fields = map lit
     [''gravity'', ''long_acc'', ''cross_acc'', ''beam'', ''pressure'',
      ''e_temperature'', ''s_temperature'', ''latitude'', ''longitude'',
      ''datetime'']"

text \<open>
  \<open>_send_line\<close> turns a failed connection and a body that is not JSON into a
  \<open>FAIL\<close> result, so the \<open>except ConnectionError\<close> around its call in \<open>run\<close> is
  never entered.
\<close>

definition send_line :: "http_result \<Rightarrow> json" where
  "send_line posted =
     (case posted of
        ConnectionError \<Rightarrow>
          JDict [(lit ''Status'', JStr (lit ''FAIL'')),
                 (lit ''Reason'', JStr (lit ''Max Retries Exhausted''))]
      | JSONDecodeError status_code \<Rightarrow>
          JDict [(lit ''Status'', JStr (lit ''FAIL'')),
                 (lit ''Reason'', JStr (lit ''JSONDecodeError''))]
      | Response status_code body \<Rightarrow> body)"

text \<open>The body of a POST: \<open>{'data': batch_queue, 'length': len(batch_queue)}\<close>.\<close>

record payload =
  p_data :: "reading list"
  p_length :: nat

definition batch :: nat where
  "batch = 10"

text \<open>What \<open>queue.get(block=True, timeout=2)\<close> gives: \<open>Empty\<close> is raised, or a line.\<close>

datatype queue_get = Empty | Line str

text \<open>
  One pass of the \<open>while\<close> loop of \<open>run\<close>: the batch before, what the queue gives
  and the outcome a POST has if one is made; the result is the batch after and the
  payload posted, if any.
\<close>

definition run_iter ::
  "builtins \<Rightarrow> str \<Rightarrow> reading list \<Rightarrow> queue_get \<Rightarrow> http_result
     \<Rightarrow> py_error + (reading list \<times> payload option)" where
  "run_iter b sensor_type batch_queue got posted =
     (case got of
        Empty \<Rightarrow> Inr (batch_queue, None)
      | Line line \<Rightarrow>
          (case get_extractor b sensor_type line sender_fields of
             Inl e \<Rightarrow> Inl e
           | Inr None \<Rightarrow> Inr (batch_queue, None)
           | Inr (Some data) \<Rightarrow>
               (let batch_queue1 = data # batch_queue
                in if length batch_queue1 < batch then Inr (batch_queue1, None)
                   else
                     (let payload = \<lparr>p_data = batch_queue1, p_length = length batch_queue1\<rparr>;
                          result = send_line posted
                      in case dict_get result (lit ''Status'') (JStr (lit ''FAIL'')) of
                           Inl e \<Rightarrow> Inl e
                         | Inr status \<Rightarrow>
                             if status = JStr (lit ''OK'') then Inr ([], Some payload)
                             else Inr (batch_queue1, Some payload)))))"

text \<open>
  The loop, from a given batch, over the passes made until the exit signal is set;
  the result is the final batch and the payloads posted, in order. \<open>run\<close> starts
  it from the empty batch.
\<close>

fun run_from ::
  "builtins \<Rightarrow> str \<Rightarrow> reading list \<Rightarrow> (queue_get \<times> http_result) list
     \<Rightarrow> py_error + (reading list \<times> payload list)" where
  "run_from b sensor_type batch_queue [] = Inr (batch_queue, [])"
| "run_from b sensor_type batch_queue ((got, posted) # passes) =
     (case run_iter b sensor_type batch_queue got posted of
        Inl e \<Rightarrow> Inl e
      | Inr (batch_queue', sent) \<Rightarrow>
          (case run_from b sensor_type batch_queue' passes of
             Inl e \<Rightarrow> Inl e
           | Inr (final, posts) \<Rightarrow>
               Inr (final, (case sent of None \<Rightarrow> [] | Some p \<Rightarrow> [p]) @ posts)))"

definition run ::
  "builtins \<Rightarrow> str \<Rightarrow> (queue_get \<times> http_result) list
     \<Rightarrow> py_error + (reading list \<times> payload list)" where
  "run b sensor_type passes = run_from b sensor_type [] passes"

section \<open>An instance of the library functions\<close>

text \<open>
  One instance of \<open>builtins\<close>, for evaluating the functions on sample lines. It
  accepts plain decimal numerals, and 14-digit time stamps read on a host whose
  local time is UTC, with the value Python gives them (up to rounding); every other
  text is rejected. The theorems below hold for every instance.
\<close>

definition decimal_nat :: "str \<Rightarrow> nat option" where
  "decimal_nat s =
     (if s \<noteq> [] \<and> (\<forall>c \<in> set s. 48 \<le> c \<and> c \<le> 57)
      then Some (foldl (\<lambda>a c. 10 * a + (c - 48)) 0 s)
      else None)"

definition decimal_int :: "str \<Rightarrow> int option" where
  "decimal_int s =
     (case s of
        [] \<Rightarrow> None
      | c # r \<Rightarrow>
          if 4300 < length s then None
          else if c = 45 then map_option (\<lambda>n. - int n) (decimal_nat r)
          else if c = 43 then map_option int (decimal_nat r)
          else map_option int (decimal_nat s))"

definition decimal_float :: "str \<Rightarrow> real option" where
  "decimal_float s =
     (case split 46 s of
        [a] \<Rightarrow> map_option real_of_int (decimal_int a)
      | [a, f] \<Rightarrow>
          (case (decimal_int a, decimal_nat f) of
             (Some x, Some y) \<Rightarrow>
               Some ((if hd a = 45 then - 1 else 1)
                     * (real_of_int \<bar>x\<bar> + real y / 10 ^ length f))
           | _ \<Rightarrow> None)
      | _ \<Rightarrow> None)"

definition days_in_month :: "nat \<Rightarrow> nat \<Rightarrow> nat" where
  "days_in_month y m =
     (if m = 2 then (if y mod 4 = 0 \<and> (y mod 100 \<noteq> 0 \<or> y mod 400 = 0) then 29 else 28)
      else if m \<in> {4, 6, 9, 11} then 30 else 31)"

definition days_from_civil :: "int \<Rightarrow> int \<Rightarrow> int \<Rightarrow> int" where
  "days_from_civil y m d =
     (let y' = (if m \<le> 2 then y - 1 else y);
          era = y' div 400;
          yoe = y' - era * 400;
          doy = (153 * (if 2 < m then m - 3 else m + 9) + 2) div 5 + d - 1;
          doe = yoe * 365 + yoe div 4 - yoe div 100 + doy
      in era * 146097 + doe - 719468)"

definition stamp_utc :: "str \<Rightarrow> real option" where
  "stamp_utc s =
     (if length s \<noteq> 14 then None
      else
        (case (decimal_nat (take 4 s), decimal_nat (take 2 (drop 4 s)),
               decimal_nat (take 2 (drop 6 s)), decimal_nat (take 2 (drop 8 s)),
               decimal_nat (take 2 (drop 10 s)), decimal_nat (take 2 (drop 12 s))) of
           (Some y, Some m, Some d, Some hh, Some mm, Some ss) \<Rightarrow>
             if 1 \<le> y \<and> 1 \<le> m \<and> m \<le> 12 \<and> 1 \<le> d \<and> d \<le> days_in_month y m
                \<and> hh \<le> 23 \<and> mm \<le> 59 \<and> ss \<le> 59
             then Some (real_of_int
                          (days_from_civil (int y) (int m) (int d) * 86400
                           + int hh * 3600 + int mm * 60 + int ss))
             else None
         | _ \<Rightarrow> None))"

definition plain_builtins :: "real \<Rightarrow> builtins" where
  "plain_builtins now =
     \<lparr>int_of_str = decimal_int, float_of_str = decimal_float,
      strptime_ts = stamp_utc, utcnow_ts = now\<rparr>"

section \<open>Sample inputs\<close>

text \<open>One airborne and one marine line, as the meters send them.\<close>

definition sample_airborne :: str where
  "sample_airborne = lit ''$UW,8421,-5,12,100,30,0,1013,25,39.5,-105.25,2000,0.0''"

definition sample_marine :: str where
  "sample_marine = lit ''$UW,8421,-5,12,1e2,30,1013,25,1,2,3,4,0,n/a,39.5,-105.25,7.5,181,20190101000000''"

text \<open>
  What the listener may put on the queue: a non-empty text with no line feed and no
  carriage return.
\<close>

definition queued_line :: "str \<Rightarrow> bool" where
  "queued_line line \<longleftrightarrow> line \<noteq> [] \<and> 10 \<notin> set line \<and> 13 \<notin> set line"

text \<open>
  Three chunks a device delivers before the exit signal: the line \<open>$UW,1\<close> with
  a zero byte and a byte 255 inside and a carriage return and a line feed at its end,
  a lone line feed, and the two bytes of \<open>ab\<close>.
\<close>

definition sample_reads :: "byte list list" where
  "sample_reads =
     [[0x24, 0x00, 0x55, 0x57, 0x2C, 0xFF, 0x31, 0x0D, 0x0A], [0x0A], [0x61, 0x62]]"




section \<open>Field extraction: properties\<close>

lemma split_not_Nil: "split sep s \<noteq> []"
  by (induction s) (auto split: list.splits)

lemma call_cast_cases:
  "(\<exists>v. call_cast b c tok = Inr v) \<or> call_cast b c tok = Inl ValueError"
  by (cases c) (auto split: option.splits)

lemma stored_cast_rule: "stored b field tok = cast_rule b field tok"
  by (simp add: stored_def cast_rule_def get_cast_def field_casts_def lit_def
           split: option.splits)

lemma lower_marine_fieldmap: "map lower marine_fieldmap = marine_fieldmap"
  by (simp add: marine_fieldmap_def lower_def lower_cp_def lit_def)

lemma lower_airborne_fieldmap: "map lower airborne_fieldmap = airborne_fieldmap"
  by (simp add: airborne_fieldmap_def lower_def lower_cp_def lit_def)

lemma distinct_marine_fieldmap: "distinct marine_fieldmap"
  by (simp add: marine_fieldmap_def lit_def)

lemma distinct_airborne_fieldmap: "distinct airborne_fieldmap"
  by (simp add: airborne_fieldmap_def lit_def)

lemma airborne_loop_eq_marine_loop:
  "map lower fm = fm \<Longrightarrow>
   airborne_loop b data wanted (enumerate i fm) ex = marine_loop b data wanted (enumerate i fm) ex"
proof (induction fm arbitrary: i ex)
  case Nil
  then show ?case by simp
next
  case (Cons f fm)
  then have "lower f = f" "map lower fm = fm" by simp_all
  with Cons.IH show ?case
    by (simp add: Let_def split: sum.splits py_error.splits)
qed


lemma map_fixed: "map f xs = xs \<Longrightarrow> x \<in> set xs \<Longrightarrow> f x = x"
  by (induction xs) auto

lemma marine_loop_step:
  assumes "i < length data" "lower field \<in> set wanted"
  shows "marine_loop b data wanted ((i, field) # rest) ex =
         marine_loop b data wanted rest (ex(field \<mapsto> stored b (lower field) (data ! i)))"
  using assms call_cast_cases [of b "get_cast (lower field)" "data ! i"]
  by (auto simp: cast_field_def index_def stored_def)

lemma marine_loop_result:
  assumes "distinct fm" "i + length fm \<le> length data"
  shows "\<exists>m. marine_loop b data wanted (enumerate i fm) ex = Inr (Some m)
           \<and> (\<forall>k. k \<notin> set fm \<or> lower k \<notin> set wanted \<longrightarrow> m k = ex k)
           \<and> (\<forall>j<length fm. lower (fm ! j) \<in> set wanted \<longrightarrow>
                 m (fm ! j) = Some (stored b (lower (fm ! j)) (data ! (i + j))))"
  using assms
proof (induction fm arbitrary: i ex)
  case Nil
  then show ?case by simp
next
  case (Cons f fm)
  have len: "i < length data" and len': "Suc i + length fm \<le> length data"
    using Cons.prems by simp_all
  have dist: "distinct fm" and notin: "f \<notin> set fm" using Cons.prems by simp_all
  define ex' where
    "ex' = (if lower f \<in> set wanted then ex(f \<mapsto> stored b (lower f) (data ! i)) else ex)"
  from Cons.IH [OF dist len', of ex'] obtain m where
    m: "marine_loop b data wanted (enumerate (Suc i) fm) ex' = Inr (Some m)"
    and keep: "\<forall>k. k \<notin> set fm \<or> lower k \<notin> set wanted \<longrightarrow> m k = ex' k"
    and vals: "\<forall>j<length fm. lower (fm ! j) \<in> set wanted \<longrightarrow>
                 m (fm ! j) = Some (stored b (lower (fm ! j)) (data ! (Suc i + j)))"
    by blast
  have run: "marine_loop b data wanted (enumerate i (f # fm)) ex = Inr (Some m)"
    using m marine_loop_step [OF len, of f wanted b "enumerate (Suc i) fm" ex]
    by (cases "lower f \<in> set wanted") (simp_all add: ex'_def)
  have "m k = ex k" if "k \<notin> set (f # fm) \<or> lower k \<notin> set wanted" for k
    using that keep by (auto simp: ex'_def)
  moreover have "m ((f # fm) ! j) = Some (stored b (lower ((f # fm) ! j)) (data ! (i + j)))"
    if "j < length (f # fm)" "lower ((f # fm) ! j) \<in> set wanted" for j
  proof (cases j)
    case 0
    then show ?thesis using that keep notin by (simp add: ex'_def)
  next
    case (Suc j')
    then show ?thesis using that vals by simp
  qed
  ultimately show ?case using run by blast
qed

lemma marine_fields_result:
  assumes "length (split comma line) = 19"
  shows "\<exists>m. extract_marine_fields b line wanted = Inr (Some m)
           \<and> dom m = set marine_fieldmap \<inter> set wanted
           \<and> (\<forall>j<19. marine_fieldmap ! j \<in> set wanted \<longrightarrow>
                 m (marine_fieldmap ! j)
                   = Some (cast_rule b (marine_fieldmap ! j) (split comma line ! j)))"
proof -
  let ?data = "split comma line"
  have len: "length marine_fieldmap = 19" by (simp add: marine_fieldmap_def)
  have low: "lower k = k" if "k \<in> set marine_fieldmap" for k
    using map_fixed [OF lower_marine_fieldmap that] .
  from marine_loop_result [OF distinct_marine_fieldmap, of 0 ?data b wanted Map.empty]
  obtain m where
    m: "marine_loop b ?data wanted (enumerate 0 marine_fieldmap) Map.empty = Inr (Some m)"
    and keep: "\<forall>k. k \<notin> set marine_fieldmap \<or> lower k \<notin> set wanted \<longrightarrow> m k = None"
    and vals: "\<forall>j<length marine_fieldmap. lower (marine_fieldmap ! j) \<in> set wanted \<longrightarrow>
                 m (marine_fieldmap ! j)
                   = Some (stored b (lower (marine_fieldmap ! j)) (?data ! (0 + j)))"
    using assms len by auto
  have run: "extract_marine_fields b line wanted = Inr (Some m)"
    using m assms len by (simp add: extract_marine_fields_def)
  have val: "m (marine_fieldmap ! j) = Some (cast_rule b (marine_fieldmap ! j) (?data ! j))"
    if "j < 19" "marine_fieldmap ! j \<in> set wanted" for j
    using that vals len low [of "marine_fieldmap ! j"] by (simp add: stored_cast_rule)
  have "dom m = set marine_fieldmap \<inter> set wanted"
  proof (intro set_eqI iffI)
    fix k assume "k \<in> dom m"
    then have "m k \<noteq> None" by auto
    with keep have "k \<in> set marine_fieldmap" "lower k \<in> set wanted" by auto
    then show "k \<in> set marine_fieldmap \<inter> set wanted" using low by auto
  next
    fix k assume k: "k \<in> set marine_fieldmap \<inter> set wanted"
    then obtain j where "j < 19" "marine_fieldmap ! j = k"
      using len by (auto simp: in_set_conv_nth)
    with val k show "k \<in> dom m" by auto
  qed
  with run val show ?thesis by blast
qed

text \<open>
  Claim C1. Marine extraction returns no result when the number of comma-separated
  tokens of the line differs from 19. When it is 19, the result is a mapping whose keys
  are exactly the field names of the marine layout that are in the wanted fields, and
  the field at position \<open>j\<close> of the layout is bound to token \<open>j\<close> cast by the
  per-field rule \<open>cast_rule\<close>: header to text, latitude, longitude, speed and course
  to floating point, datetime through the instrument-time conversion, every other
  field to integer, and the raw token where the numeric cast fails.
\<close>

theorem marine_extraction:
  "(length (split comma line) \<noteq> 19 \<longrightarrow> extract_marine_fields b line wanted = Inr None)
   \<and> (length (split comma line) = 19 \<longrightarrow>
        (\<exists>m. extract_marine_fields b line wanted = Inr (Some m)
           \<and> dom m = set marine_fieldmap \<inter> set wanted
           \<and> (\<forall>j<19. marine_fieldmap ! j \<in> set wanted \<longrightarrow>
                 m (marine_fieldmap ! j)
                   = Some (cast_rule b (marine_fieldmap ! j) (split comma line ! j)))))"
proof (intro conjI impI)
  assume "length (split comma line) \<noteq> 19"
  then show "extract_marine_fields b line wanted = Inr None"
    by (simp add: extract_marine_fields_def marine_fieldmap_def)
next
  assume "length (split comma line) = 19"
  then show "\<exists>m. extract_marine_fields b line wanted = Inr (Some m)
           \<and> dom m = set marine_fieldmap \<inter> set wanted
           \<and> (\<forall>j<19. marine_fieldmap ! j \<in> set wanted \<longrightarrow>
                 m (marine_fieldmap ! j)
                   = Some (cast_rule b (marine_fieldmap ! j) (split comma line ! j)))"
    by (rule marine_fields_result)
qed


lemma sample_marine_tokens:
  "split comma sample_marine = map lit
     [''$UW'', ''8421'', ''-5'', ''12'', ''1e2'', ''30'', ''1013'', ''25'', ''1'', ''2'', ''3'',
      ''4'', ''0'', ''n/a'', ''39.5'', ''-105.25'', ''7.5'', ''181'', ''20190101000000'']"
  by (simp add: sample_marine_def lit_def comma_def)

lemma sample_airborne_tokens:
  "split comma sample_airborne = map lit
     [''$UW'', ''8421'', ''-5'', ''12'', ''100'', ''30'', ''0'', ''1013'', ''25'', ''39.5'',
      ''-105.25'', ''2000'', ''0.0'']"
  by (simp add: sample_airborne_def lit_def comma_def)

text \<open>
  The theorem on a three-token line and on the sample marine line, with the wanted
  fields of the HTTP sender.
\<close>

theorem marine_extraction_witness:
  "length (split comma sample_marine) = 19
   \<and> length (split comma (lit ''$UW,1,2'')) \<noteq> 19
   \<and> extract_marine_fields (plain_builtins 0) (lit ''$UW,1,2'') sender_fields = Inr None
   \<and> (\<exists>m. extract_marine_fields (plain_builtins 0) sample_marine sender_fields = Inr (Some m)
         \<and> m (lit ''gravity'') = Some (VInt 8421)
         \<and> m (lit ''beam'') = Some (VStr (lit ''1e2''))
         \<and> m (lit ''latitude'') = Some (VFloat 39.5)
         \<and> m (lit ''datetime'') = Some (VFloat 1546300800)
         \<and> m (lit ''header'') = None)"
proof -
  let ?b = "plain_builtins 0"
  have short: "length (split comma (lit ''$UW,1,2'')) \<noteq> 19"
    by (simp add: lit_def comma_def)
  have long: "length (split comma sample_marine) = 19"
    by (simp add: sample_marine_tokens)
  from marine_extraction [of "lit ''$UW,1,2''" ?b sender_fields] short
  have none: "extract_marine_fields ?b (lit ''$UW,1,2'') sender_fields = Inr None"
    by blast
  from marine_extraction [of sample_marine ?b sender_fields] long
  obtain m where
    m: "extract_marine_fields ?b sample_marine sender_fields = Inr (Some m)"
    and d: "dom m = set marine_fieldmap \<inter> set sender_fields"
    and v: "\<And>j. j < 19 \<Longrightarrow> marine_fieldmap ! j \<in> set sender_fields \<Longrightarrow>
              m (marine_fieldmap ! j)
                = Some (cast_rule ?b (marine_fieldmap ! j) (split comma sample_marine ! j))"
    by blast
  have "m (lit ''gravity'') = Some (VInt 8421)"
    using v [of 1]
    by (simp add: marine_fieldmap_def sender_fields_def sample_marine_tokens cast_rule_def
          plain_builtins_def decimal_int_def decimal_nat_def lit_def)
  moreover have "m (lit ''beam'') = Some (VStr (lit ''1e2''))"
    using v [of 4]
    by (simp add: marine_fieldmap_def sender_fields_def sample_marine_tokens cast_rule_def
          plain_builtins_def decimal_int_def decimal_nat_def lit_def)
  moreover have "m (lit ''latitude'') = Some (VFloat 39.5)"
    using v [of 14]
    by (simp add: marine_fieldmap_def sender_fields_def sample_marine_tokens cast_rule_def
          plain_builtins_def decimal_float_def decimal_int_def decimal_nat_def lit_def)
  moreover have "m (lit ''datetime'') = Some (VFloat 1546300800)"
    using v [of 18]
    by (simp add: marine_fieldmap_def sender_fields_def sample_marine_tokens cast_rule_def
          plain_builtins_def convert_marine_time_def stamp_utc_def decimal_nat_def
          days_in_month_def days_from_civil_def lit_def)
  moreover have "lit ''header'' \<notin> dom m"
    unfolding d by (simp add: sender_fields_def lit_def)
  ultimately show ?thesis using short long none m by (auto simp: domIff)
qed

lemma marine_loop_total:
  assumes "i + length fm \<le> length data"
  shows "\<exists>m. marine_loop b data wanted (enumerate i fm) ex = Inr (Some m)"
  using assms
proof (induction fm arbitrary: i ex)
  case Nil
  then show ?case by simp
next
  case (Cons f fm)
  then have len: "i < length data" and len': "Suc i + length fm \<le> length data"
    by simp_all
  show ?case
  proof (cases "lower f \<in> set wanted")
    case True
    then show ?thesis
      using marine_loop_step [OF len True, of b "enumerate (Suc i) fm" ex] Cons.IH [OF len']
      by simp
  next
    case False
    then show ?thesis using Cons.IH [OF len'] by simp
  qed
qed

lemma butlast_ne: "2 \<le> length xs \<Longrightarrow> butlast xs \<noteq> []"
proof
  assume len: "2 \<le> length xs" and "butlast xs = []"
  then have "length (butlast xs) = 0" by simp
  with len show False by simp
qed

lemma pop_13:
  assumes "length xs = 13"
  shows "pop xs = Inr (xs ! 12, butlast xs)"
    and "pop (butlast xs) = Inr (xs ! 11, butlast (butlast xs))"
    and "length (butlast (butlast xs)) = 11"
proof -
  have ne: "xs \<noteq> []" "butlast xs \<noteq> []"
    using assms butlast_ne [of xs] by auto
  show "pop xs = Inr (xs ! 12, butlast xs)"
    using assms ne by (simp add: pop_def last_conv_nth)
  show "pop (butlast xs) = Inr (xs ! 11, butlast (butlast xs))"
    using assms ne by (simp add: pop_def last_conv_nth nth_butlast)
  show "length (butlast (butlast xs)) = 11" using assms by simp
qed

lemma airborne_loop_total:
  assumes "length data = 11"
  shows "\<exists>m. airborne_loop b data wanted (enumerate 0 airborne_fieldmap) Map.empty
               = Inr (Some m)"
proof -
  have "0 + length airborne_fieldmap \<le> length data"
    using assms by (simp add: airborne_fieldmap_def)
  from marine_loop_total [OF this] show ?thesis
    by (simp add: airborne_loop_eq_marine_loop [OF lower_airborne_fieldmap])
qed

lemma airborne_fields_success:
  assumes len: "length (split comma line) = 13"
    and s: "float_of_str b (split comma line ! 12) = Some s"
    and w: "int_of_str b (split comma line ! 11) = Some w"
    and dt: "convert_gps_time w s = Inr dt"
  shows "\<exists>m. extract_airborne_fields b line wanted = Inr (Some m)
           \<and> m (lit ''datetime'') = Some (VFloat dt)"
proof -
  let ?data = "split comma line"
  from airborne_loop_total [OF pop_13(3) [OF len]] obtain ex where
    "airborne_loop b (butlast (butlast ?data)) wanted (enumerate 0 airborne_fieldmap) Map.empty
       = Inr (Some ex)" by blast
  then have "extract_airborne_fields b line wanted
               = Inr (Some (ex(lit ''datetime'' \<mapsto> VFloat dt)))"
    using len s w dt pop_13(1,2) [OF len]
    by (simp add: extract_airborne_fields_def airborne_fieldmap_def)
  then show ?thesis by simp
qed


lemma airborne_fields_unfold:
  assumes len: "length (split comma line) = 13"
  shows "extract_airborne_fields b line wanted =
     (case float_of_str b (split comma line ! 12) of
        None \<Rightarrow> Inr None
      | Some gpssecond \<Rightarrow>
          (case int_of_str b (split comma line ! 11) of
             None \<Rightarrow> Inr None
           | Some gpsweek \<Rightarrow>
               (case convert_gps_time gpsweek gpssecond of
                  Inl e \<Rightarrow> gps_handler e
                | Inr dt \<Rightarrow>
                    (case airborne_loop b (butlast (butlast (split comma line))) wanted
                            (enumerate 0 airborne_fieldmap) Map.empty of
                       Inl e \<Rightarrow> Inl e
                     | Inr None \<Rightarrow> Inr None
                     | Inr (Some extracted) \<Rightarrow>
                         Inr (Some (extracted(lit ''datetime'' \<mapsto> VFloat dt)))))))"
proof -
  have fm: "length airborne_fieldmap = 11" by (simp add: airborne_fieldmap_def)
  note p = pop_13(1,2) [OF len]
  show ?thesis
  proof (cases "float_of_str b (split comma line ! 12)")
    case None
    then show ?thesis
      by (simp add: extract_airborne_fields_def Let_def len fm p gps_handler_def)
  next
    case s: (Some s)
    show ?thesis
    proof (cases "int_of_str b (split comma line ! 11)")
      case None
      then show ?thesis
        by (simp add: extract_airborne_fields_def Let_def len fm p s gps_handler_def)
    next
      case (Some w)
      then show ?thesis
        by (simp add: extract_airborne_fields_def Let_def len fm p s)
    qed
  qed
qed

lemma airborne_fields_Some:
  assumes "extract_airborne_fields b line wanted = Inr (Some m)"
  shows "length (split comma line) = 13
         \<and> (\<exists>w s dt. int_of_str b (split comma line ! 11) = Some w
               \<and> float_of_str b (split comma line ! 12) = Some s
               \<and> convert_gps_time w s = Inr dt
               \<and> m (lit ''datetime'') = Some (VFloat dt))"
proof -
  let ?data = "split comma line"
  have len: "length ?data = 13"
  proof (rule ccontr)
    assume "length ?data \<noteq> 13"
    then have "extract_airborne_fields b line wanted = Inr None"
      by (simp add: extract_airborne_fields_def airborne_fieldmap_def)
    with assms show False by simp
  qed
  note u = airborne_fields_unfold [OF len, of b wanted]
  from assms obtain s where s: "float_of_str b (?data ! 12) = Some s"
    by (cases "float_of_str b (?data ! 12)") (auto simp: u)
  from assms obtain w where w: "int_of_str b (?data ! 11) = Some w"
    by (cases "int_of_str b (?data ! 11)") (auto simp: u s)
  from assms obtain dt where dt: "convert_gps_time w s = Inr dt"
    by (cases "convert_gps_time w s") (auto simp: u s w gps_handler_def split: if_splits)
  from assms have "m (lit ''datetime'') = Some (VFloat dt)"
    by (auto simp: u s w dt split: sum.splits option.splits)
  with len s w dt show ?thesis by blast
qed

lemma airborne_fields_None:
  assumes "length (split comma line) \<noteq> 13
           \<or> int_of_str b (last (butlast (split comma line))) = None
           \<or> float_of_str b (last (split comma line)) = None"
  shows "extract_airborne_fields b line wanted = Inr None"
proof (cases "length (split comma line) = 13")
  case False
  then show ?thesis by (simp add: extract_airborne_fields_def airborne_fieldmap_def)
next
  case True
  then have ne: "split comma line \<noteq> []" "butlast (split comma line) \<noteq> []"
    using butlast_ne [of "split comma line"] by auto
  have l: "last (split comma line) = split comma line ! 12"
    "last (butlast (split comma line)) = split comma line ! 11"
    using True ne by (simp_all add: last_conv_nth nth_butlast)
  from assms True l
  have "int_of_str b (split comma line ! 11) = None
        \<or> float_of_str b (split comma line ! 12) = None" by simp
  then show ?thesis
    by (auto simp: airborne_fields_unfold [OF True] split: option.splits)
qed


lemma last_two_13:
  assumes "length xs = 13"
  shows "last xs = xs ! 12" and "last (butlast xs) = xs ! 11"
proof -
  have ne: "xs \<noteq> []" "butlast xs \<noteq> []"
    using assms butlast_ne [of xs] by auto
  show "last xs = xs ! 12" using assms ne by (simp add: last_conv_nth)
  show "last (butlast xs) = xs ! 11" using assms ne by (simp add: last_conv_nth nth_butlast)
qed

text \<open>
  Claim C2. Airborne extraction returns no result when the number of comma-separated
  tokens differs from 13, and when either of the two trailing tokens does not parse:
  the last one, \<open>gpsweekseconds\<close>, as a floating-point number, or the one before
  it, \<open>gpsweek\<close>, as an integer (both taken from the end of the token list). Whenever
  extraction succeeds, the line has 13 tokens, both trailing tokens parse, and the
  result binds the key \<open>datetime\<close> to the GPS-time conversion of the pair, whatever the
  wanted fields are.
\<close>

theorem airborne_extraction:
  "(length (split comma line) \<noteq> 13 \<longrightarrow> extract_airborne_fields b line wanted = Inr None)
   \<and> (int_of_str b (last (butlast (split comma line))) = None
        \<or> float_of_str b (last (split comma line)) = None
      \<longrightarrow> extract_airborne_fields b line wanted = Inr None)
   \<and> (\<forall>m. extract_airborne_fields b line wanted = Inr (Some m) \<longrightarrow>
          length (split comma line) = 13
          \<and> (\<exists>w s dt. int_of_str b (last (butlast (split comma line))) = Some w
                \<and> float_of_str b (last (split comma line)) = Some s
                \<and> convert_gps_time w s = Inr dt
                \<and> m (lit ''datetime'') = Some (VFloat dt)))"
proof (intro conjI impI allI)
  assume "length (split comma line) \<noteq> 13"
  then show "extract_airborne_fields b line wanted = Inr None"
    by (simp add: airborne_fields_None)
next
  assume "int_of_str b (last (butlast (split comma line))) = None
          \<or> float_of_str b (last (split comma line)) = None"
  then show "extract_airborne_fields b line wanted = Inr None"
    by (simp add: airborne_fields_None)
next
  fix m assume m: "extract_airborne_fields b line wanted = Inr (Some m)"
  from airborne_fields_Some [OF m] show "length (split comma line) = 13" by simp
next
  fix m assume m: "extract_airborne_fields b line wanted = Inr (Some m)"
  from airborne_fields_Some [OF m] have len: "length (split comma line) = 13" by simp
  from airborne_fields_Some [OF m] last_two_13 [OF len]
  show "\<exists>w s dt. int_of_str b (last (butlast (split comma line))) = Some w
                \<and> float_of_str b (last (split comma line)) = Some s
                \<and> convert_gps_time w s = Inr dt
                \<and> m (lit ''datetime'') = Some (VFloat dt)"
    by simp
qed

lemma sample_airborne_run:
  "extract_airborne_fields (plain_builtins 0) sample_airborne []
     = Inr (Some [lit ''datetime'' \<mapsto> VFloat 1525564800])"
  by (simp add: extract_airborne_fields_def sample_airborne_tokens airborne_fieldmap_def
        pop_def plain_builtins_def decimal_float_def decimal_int_def decimal_nat_def
        convert_gps_time_def float_of_int_def enumerate_eq_zip upt_rec lit_def)

text \<open>
  The theorem on a three-token line, on a line whose last token is not a number, and on
  the sample airborne line with no wanted field at all.
\<close>

theorem airborne_extraction_witness:
  "length (split comma (lit ''$UW,1,2'')) \<noteq> 13
   \<and> extract_airborne_fields (plain_builtins 0) (lit ''$UW,1,2'') sender_fields = Inr None
   \<and> float_of_str (plain_builtins 0) (last (split comma (lit ''$UW,2000,x''))) = None
   \<and> extract_airborne_fields (plain_builtins 0) (lit ''$UW,2000,x'') sender_fields = Inr None
   \<and> extract_airborne_fields (plain_builtins 0) sample_airborne []
       = Inr (Some [lit ''datetime'' \<mapsto> VFloat 1525564800])
   \<and> int_of_str (plain_builtins 0) (last (butlast (split comma sample_airborne))) = Some 2000
   \<and> float_of_str (plain_builtins 0) (last (split comma sample_airborne)) = Some 0
   \<and> convert_gps_time 2000 0 = Inr 1525564800"
proof -
  let ?b = "plain_builtins 0"
  have short: "length (split comma (lit ''$UW,1,2'')) \<noteq> 13"
    by (simp add: lit_def comma_def)
  have bad: "float_of_str ?b (last (split comma (lit ''$UW,2000,x''))) = None"
    by (simp add: lit_def comma_def plain_builtins_def decimal_float_def decimal_int_def
          decimal_nat_def)
  have w: "int_of_str ?b (last (butlast (split comma sample_airborne))) = Some 2000"
    by (simp add: sample_airborne_tokens plain_builtins_def decimal_int_def decimal_nat_def
          lit_def)
  have s: "float_of_str ?b (last (split comma sample_airborne)) = Some 0"
    by (simp add: sample_airborne_tokens plain_builtins_def decimal_float_def decimal_int_def
          decimal_nat_def lit_def)
  from airborne_extraction [of "lit ''$UW,1,2''" ?b sender_fields] short
  have 1: "extract_airborne_fields ?b (lit ''$UW,1,2'') sender_fields = Inr None" by blast
  from airborne_extraction [of "lit ''$UW,2000,x''" ?b sender_fields] bad
  have 2: "extract_airborne_fields ?b (lit ''$UW,2000,x'') sender_fields = Inr None" by blast
  from airborne_extraction [of sample_airborne ?b "[]"] sample_airborne_run
  obtain w' s' dt where "int_of_str ?b (last (butlast (split comma sample_airborne))) = Some w'"
    "float_of_str ?b (last (split comma sample_airborne)) = Some s'"
    "convert_gps_time w' s' = Inr dt"
    "[lit ''datetime'' \<mapsto> VFloat 1525564800] (lit ''datetime'') = Some (VFloat dt)"
    by blast
  with w s have 3: "convert_gps_time 2000 0 = Inr 1525564800" by simp
  from short bad w s 1 2 3 sample_airborne_run show ?thesis by blast
qed

text \<open>
  Claim C4, as amended. For an airborne line with 13 tokens where \<open>gpsweek\<close> is 2000
  and \<open>gpsweekseconds\<close> is 0.0, extraction succeeds and the derived timestamp is
  \<open>315964800 + 2000 * 604800 + 0 = 1525564800\<close>. All the numbers involved are
  integers below \<open>2^53\<close>, on which double arithmetic is exact.
\<close>

theorem airborne_week_2000:
  assumes "length (split comma line) = 13"
    and "int_of_str b (split comma line ! 11) = Some 2000"
    and "float_of_str b (split comma line ! 12) = Some 0"
  shows "\<exists>m. extract_airborne_fields b line wanted = Inr (Some m)
           \<and> m (lit ''datetime'') = Some (VFloat 1525564800)"
proof -
  have "convert_gps_time 2000 0 = Inr 1525564800"
    by (simp add: convert_gps_time_def float_of_int_def)
  from airborne_fields_success [OF assms(1) assms(3) assms(2) this] show ?thesis .
qed

text \<open>The amended claim on the sample airborne line.\<close>

theorem airborne_week_2000_witness:
  "length (split comma sample_airborne) = 13
   \<and> int_of_str (plain_builtins 0) (split comma sample_airborne ! 11) = Some 2000
   \<and> float_of_str (plain_builtins 0) (split comma sample_airborne ! 12) = Some 0
   \<and> (\<exists>m. extract_airborne_fields (plain_builtins 0) sample_airborne sender_fields
              = Inr (Some m)
         \<and> m (lit ''datetime'') = Some (VFloat 1525564800))"
proof -
  let ?b = "plain_builtins 0"
  have len: "length (split comma sample_airborne) = 13"
    by (simp add: sample_airborne_tokens)
  have w: "int_of_str ?b (split comma sample_airborne ! 11) = Some 2000"
    by (simp add: sample_airborne_tokens plain_builtins_def decimal_int_def decimal_nat_def
          lit_def)
  have s: "float_of_str ?b (split comma sample_airborne ! 12) = Some 0"
    by (simp add: sample_airborne_tokens plain_builtins_def decimal_float_def decimal_int_def
          decimal_nat_def lit_def)
  from airborne_week_2000 [OF len w s, of sender_fields] len w s show ?thesis by blast
qed

text \<open>
  Claim C4 as stated fails: on the sample airborne line, which has 13 tokens, week
  2000 and 0.0 seconds, the timestamp is 1525564800 and not 1525764800.
\<close>

theorem airborne_week_2000_counterexample:
  "length (split comma sample_airborne) = 13
   \<and> int_of_str (plain_builtins 0) (split comma sample_airborne ! 11) = Some 2000
   \<and> float_of_str (plain_builtins 0) (split comma sample_airborne ! 12) = Some 0
   \<and> extract_airborne_fields (plain_builtins 0) sample_airborne []
       = Inr (Some [lit ''datetime'' \<mapsto> VFloat 1525564800])
   \<and> [lit ''datetime'' \<mapsto> VFloat 1525564800] (lit ''datetime'')
       \<noteq> Some (VFloat 1525764800)"
proof -
  let ?b = "plain_builtins 0"
  have len: "length (split comma sample_airborne) = 13"
    by (simp add: sample_airborne_tokens)
  have w: "int_of_str ?b (split comma sample_airborne ! 11) = Some 2000"
    by (simp add: sample_airborne_tokens plain_builtins_def decimal_int_def decimal_nat_def
          lit_def)
  have s: "float_of_str ?b (split comma sample_airborne ! 12) = Some 0"
    by (simp add: sample_airborne_tokens plain_builtins_def decimal_float_def decimal_int_def
          decimal_nat_def lit_def)
  from len w s sample_airborne_run show ?thesis by simp
qed


lemma convert_gps_time_cases:
  "convert_gps_time w s = Inl OverflowError \<or> (\<exists>dt. convert_gps_time w s = Inr dt)"
  by (simp add: convert_gps_time_def float_of_int_def)

lemma enumerate_index:
  assumes "(i, field) \<in> set (enumerate 0 fm)" "length fm \<le> length data"
  shows "index data i \<noteq> Inl IndexError"
  using assms by (auto simp: in_set_enumerate_eq index_def)

lemma airborne_fields_not_None:
  assumes len: "length (split comma line) = 13"
    and none: "extract_airborne_fields b line wanted = Inr None"
  shows "int_of_str b (split comma line ! 11) = None
         \<or> float_of_str b (split comma line ! 12) = None"
proof (rule ccontr)
  assume "\<not> ?thesis"
  then obtain w s where w: "int_of_str b (split comma line ! 11) = Some w"
    and s: "float_of_str b (split comma line ! 12) = Some s" by auto
  from convert_gps_time_cases [of w s] show False
  proof
    assume "convert_gps_time w s = Inl OverflowError"
    with none show False
      by (simp add: airborne_fields_unfold [OF len] w s gps_handler_def)
  next
    assume "\<exists>dt. convert_gps_time w s = Inr dt"
    then obtain dt where "convert_gps_time w s = Inr dt" ..
    from airborne_fields_success [OF len s w this, of wanted] none show False by auto
  qed
qed

text \<open>
  Claim C10. Once the token count has passed the check (19 tokens for the marine
  layout; 13 for the airborne one, of which 11 are left after the two trailing tokens
  are popped), every index the loop uses is in range, so the loop never takes the
  \<open>except IndexError\<close> exit: the marine extractor returns a result, and the airborne
  extractor returns no result only when a trailing token does not parse.
\<close>

theorem missing_token_unreachable:
  "(length (split comma line) = 19 \<longrightarrow>
      (\<forall>(i, field) \<in> set (enumerate 0 marine_fieldmap).
          index (split comma line) i \<noteq> Inl IndexError)
      \<and> marine_loop b (split comma line) wanted (enumerate 0 marine_fieldmap) Map.empty
          \<noteq> Inr None
      \<and> extract_marine_fields b line wanted \<noteq> Inr None)
   \<and> (length (split comma line) = 13 \<longrightarrow>
      (\<forall>(i, field) \<in> set (enumerate 0 airborne_fieldmap).
          index (butlast (butlast (split comma line))) i \<noteq> Inl IndexError)
      \<and> airborne_loop b (butlast (butlast (split comma line))) wanted
            (enumerate 0 airborne_fieldmap) Map.empty \<noteq> Inr None
      \<and> (extract_airborne_fields b line wanted = Inr None \<longrightarrow>
            int_of_str b (split comma line ! 11) = None
            \<or> float_of_str b (split comma line ! 12) = None))"
proof (intro conjI impI)
  assume len: "length (split comma line) = 19"
  have fm: "length marine_fieldmap = 19" by (simp add: marine_fieldmap_def)
  show "\<forall>(i, field) \<in> set (enumerate 0 marine_fieldmap).
          index (split comma line) i \<noteq> Inl IndexError"
    using enumerate_index [of _ _ marine_fieldmap "split comma line"] len fm by auto
  from marine_loop_total [of 0 marine_fieldmap "split comma line" b wanted Map.empty] len fm
  obtain m where
    m: "marine_loop b (split comma line) wanted (enumerate 0 marine_fieldmap) Map.empty
          = Inr (Some m)" by auto
  then show "marine_loop b (split comma line) wanted (enumerate 0 marine_fieldmap) Map.empty
          \<noteq> Inr None" by simp
  from m len fm show "extract_marine_fields b line wanted \<noteq> Inr None"
    by (simp add: extract_marine_fields_def)
next
  assume len: "length (split comma line) = 13"
  have fm: "length airborne_fieldmap = 11" by (simp add: airborne_fieldmap_def)
  have len2: "length (butlast (butlast (split comma line))) = 11" using len by simp
  show "\<forall>(i, field) \<in> set (enumerate 0 airborne_fieldmap).
          index (butlast (butlast (split comma line))) i \<noteq> Inl IndexError"
    using enumerate_index [of _ _ airborne_fieldmap "butlast (butlast (split comma line))"]
      len2 fm by auto
  from airborne_loop_total [OF len2, of b wanted]
  show "airborne_loop b (butlast (butlast (split comma line))) wanted
            (enumerate 0 airborne_fieldmap) Map.empty \<noteq> Inr None" by auto
next
  assume "length (split comma line) = 13"
    and "extract_airborne_fields b line wanted = Inr None"
  then show "int_of_str b (split comma line ! 11) = None
            \<or> float_of_str b (split comma line ! 12) = None"
    by (rule airborne_fields_not_None)
qed

text \<open>The theorem on the two sample lines.\<close>

theorem missing_token_unreachable_witness:
  "length (split comma sample_marine) = 19
   \<and> extract_marine_fields (plain_builtins 0) sample_marine sender_fields \<noteq> Inr None
   \<and> index (split comma sample_marine) 18 \<noteq> Inl IndexError
   \<and> length (split comma sample_airborne) = 13
   \<and> index (butlast (butlast (split comma sample_airborne))) 10 \<noteq> Inl IndexError
   \<and> airborne_loop (plain_builtins 0) (butlast (butlast (split comma sample_airborne)))
        sender_fields (enumerate 0 airborne_fieldmap) Map.empty \<noteq> Inr None
   \<and> extract_airborne_fields (plain_builtins 0) sample_airborne sender_fields \<noteq> Inr None"
proof -
  let ?b = "plain_builtins 0"
  have lm: "length (split comma sample_marine) = 19" by (simp add: sample_marine_tokens)
  have la: "length (split comma sample_airborne) = 13" by (simp add: sample_airborne_tokens)
  have w: "int_of_str ?b (split comma sample_airborne ! 11) \<noteq> None"
    by (simp add: sample_airborne_tokens plain_builtins_def decimal_int_def decimal_nat_def
          lit_def)
  have s: "float_of_str ?b (split comma sample_airborne ! 12) \<noteq> None"
    by (simp add: sample_airborne_tokens plain_builtins_def decimal_float_def decimal_int_def
          decimal_nat_def lit_def)
  have em: "(18, lit ''datetime'') \<in> set (enumerate 0 marine_fieldmap)"
    by (simp add: marine_fieldmap_def in_set_enumerate_eq)
  have ea: "(10, lit ''longitude'') \<in> set (enumerate 0 airborne_fieldmap)"
    by (simp add: airborne_fieldmap_def in_set_enumerate_eq)
  note m = missing_token_unreachable [of sample_marine ?b sender_fields]
  note a = missing_token_unreachable [of sample_airborne ?b sender_fields]
  from m lm em have 1: "index (split comma sample_marine) 18 \<noteq> Inl IndexError" by blast
  from m lm have 2: "extract_marine_fields ?b sample_marine sender_fields \<noteq> Inr None"
    by blast
  from a la ea
  have 3: "index (butlast (butlast (split comma sample_airborne))) 10 \<noteq> Inl IndexError"
    by blast
  from a la
  have 4: "airborne_loop ?b (butlast (butlast (split comma sample_airborne)))
        sender_fields (enumerate 0 airborne_fieldmap) Map.empty \<noteq> Inr None" by blast
  from a la w s
  have 5: "extract_airborne_fields ?b sample_airborne sender_fields \<noteq> Inr None" by blast
  from lm la 1 2 3 4 5 show ?thesis by blast
qed

section \<open>Decoding and the serial listener: properties\<close>


text \<open>
  Claim C8 does not hold of the code. An integer (and \<open>None\<close>) cannot be iterated:
  the comprehension raises \<open>TypeError\<close>, the handler catches \<open>AttributeError\<close>
  only, and the exception leaves \<open>decode_bytearr\<close> instead of the value \<open>None\<close>.
\<close>

theorem decode_not_iterable_raises:
  "decode_bytearr (PyInt 5) = Inl TypeError
   \<and> decode_bytearr (PyInt n) = Inl TypeError
   \<and> decode_bytearr PyNone = Inl TypeError"
  by (simp add: decode_bytearr_def legal_bytes_def)

lemma utf8_next_point:
  assumes "utf8_next b bs = (Some c, rest)"
  shows "128 \<le> c \<or> c = b"
proof (cases "b < 128")
  case True
  with assms show ?thesis by (simp add: utf8_next_def)
next
  case False
  note b128 = this
  show ?thesis
  proof (cases "b < 194")
    case True
    with assms b128 show ?thesis by (simp add: utf8_next_def)
  next
    case False
    note b194 = this
    show ?thesis
    proof (cases "b < 224")
      case True
      with assms b128 b194 show ?thesis
        by (auto simp: utf8_next_def cont_def split: list.splits if_splits)
    next
      case False
      note b224 = this
      show ?thesis
      proof (cases "b < 240")
        case True
        with assms b128 b194 b224 show ?thesis
          by (auto simp: utf8_next_def cont_def split: list.splits if_splits)
      next
        case False
        with assms b128 b194 b224 show ?thesis
          by (auto simp: utf8_next_def cont_def split: list.splits if_splits) arith+
      qed
    qed
  qed
qed

lemma utf8_next_rest: "set (snd (utf8_next b bs)) \<subseteq> set bs"
  by (auto simp: utf8_next_def split: list.splits)

lemma utf8_ignore_set: "c \<in> set (utf8_ignore bs) \<Longrightarrow> 128 \<le> c \<or> c \<in> set bs"
proof (induction bs rule: utf8_ignore.induct)
  case 1
  then show ?case by simp
next
  case (2 b bs)
  obtain x rest where n: "utf8_next b bs = (x, rest)" by (cases "utf8_next b bs")
  have rest: "set rest \<subseteq> set bs" using utf8_next_rest [of b bs] n by simp
  show ?case
  proof (cases x)
    case None
    with n "2.prems" have "c \<in> set (utf8_ignore rest)" by simp
    with "2.IH"(1) [OF n [symmetric] None] rest show ?thesis by auto
  next
    case (Some d)
    with n "2.prems" have "c = d \<or> c \<in> set (utf8_ignore rest)" by simp
    then show ?thesis
    proof
      assume "c = d"
      with utf8_next_point [of b bs d rest] n Some show ?thesis by auto
    next
      assume "c \<in> set (utf8_ignore rest)"
      with "2.IH"(2) [OF n [symmetric] Some] rest show ?thesis by auto
    qed
  qed
qed


lemma illegal_int:
  "n \<noteq> 256 \<Longrightarrow> int n \<in> set ILLEGAL_CHARS \<longleftrightarrow> n \<le> 31 \<or> n = 255"
  by (auto simp: ILLEGAL_CHARS_def image_iff)

lemma illegal_byte:
  "uint c \<in> set ILLEGAL_CHARS \<longleftrightarrow> unat c \<le> 31 \<or> unat c = 255" for c :: byte
proof -
  have "unat c < 2 ^ LENGTH(8)" by (rule unsigned_less)
  then have "unat c \<noteq> 256" by simp
  from illegal_int [OF this] show ?thesis by (simp only: uint_nat)
qed

lemma legal_bytes_filter:
  "legal_bytes (PyBytes bs) = Inr (filter (\<lambda>c. \<not> (unat c \<le> 31 \<or> unat c = 255)) bs)"
  by (simp add: legal_bytes_def illegal_byte)

lemma strip_subset: "set (strip chars s) \<subseteq> set s"
proof -
  have "set (dropWhile P xs) \<subseteq> set xs" for P and xs :: "nat list"
    by (auto dest: set_dropWhileD)
  from this [of _ "rev (dropWhile (\<lambda>c. c \<in> set chars) s)"] this [of _ s]
  show ?thesis unfolding strip_def by (metis set_rev subset_trans)
qed

lemma decode_bytes:
  "decode_bytearr (PyBytes bs) =
     Inr (Some (strip [13, 10]
       (utf8_ignore (map unat (filter (\<lambda>c. \<not> (unat c \<le> 31 \<or> unat c = 255)) bs)))))"
  by (simp add: decode_bytearr_def legal_bytes_filter)

lemma decode_bytes_chars:
  assumes "decode_bytearr (PyBytes bs) = Inr (Some line)" "c \<in> set line"
  shows "32 \<le> c"
proof -
  let ?raw = "map unat (filter (\<lambda>c. \<not> (unat c \<le> 31 \<or> unat c = 255)) bs)"
  from assms have "c \<in> set (strip [13, 10] (utf8_ignore ?raw))"
    by (simp add: decode_bytes)
  with strip_subset have "c \<in> set (utf8_ignore ?raw)" by blast
  from utf8_ignore_set [OF this] show ?thesis by auto
qed

lemma read_loop_value:
  "read_loop buffer reads = (got, buffer', reads') \<Longrightarrow> got = PyStr [] \<or> (\<exists>bs. got = PyBytes bs)"
  by (induction buffer reads rule: read_loop.induct) (auto split: if_splits option.splits)

lemma readline_value:
  "readline buffer reads = (got, buffer', reads') \<Longrightarrow> got = PyStr [] \<or> (\<exists>bs. got = PyBytes bs)"
  by (auto simp: readline_def split: option.splits dest: read_loop_value)

lemma decode_readline:
  assumes "readline buffer reads = (got, buffer', reads')"
  shows "\<exists>line. decode_bytearr got = Inr line
            \<and> (line = None \<or> line = Some [] \<or> queued_line (the line))"
proof -
  from readline_value [OF assms] show ?thesis
  proof
    assume "got = PyStr []"
    then show ?thesis by (simp add: decode_bytearr_def)
  next
    assume "\<exists>bs. got = PyBytes bs"
    then obtain bs where got: "got = PyBytes bs" ..
    obtain line where line: "decode_bytearr (PyBytes bs) = Inr (Some line)"
      by (simp add: decode_bytes)
    have "32 \<le> c" if "c \<in> set line" for c
      using decode_bytes_chars [OF line that] .
    then have "10 \<notin> set line" "13 \<notin> set line" by fastforce+
    then show ?thesis using got line by (cases "line = []") (auto simp: queued_line_def)
  qed
qed

lemma listen_Nil: "listen buffer queue [] = Inr (buffer, queue)"
  by (subst listen.simps) simp

lemma listen_step:
  assumes "reads \<noteq> []" "readline buffer reads = (got, buffer1, reads1)"
    "decode_bytearr got = Inr line"
  shows "listen buffer queue reads =
           (if line = None \<or> line = Some [] then listen buffer1 queue reads1
            else listen buffer1 (queue @ [the line]) reads1)"
  by (subst listen.simps) (simp add: assms)

lemma listen_queue:
  "\<exists>buffer' new. listen buffer queue reads = Inr (buffer', queue @ new)
      \<and> (\<forall>line \<in> set new. queued_line line)"
proof (induction buffer queue reads rule: listen.induct)
  case (1 buffer queue reads)
  show ?case
  proof (cases "reads = []")
    case True
    then show ?thesis by (simp add: listen_Nil)
  next
    case False
    obtain got buffer1 reads1 where r: "readline buffer reads = (got, buffer1, reads1)"
      by (cases "readline buffer reads")
    from decode_readline [OF r] obtain line where
      d: "decode_bytearr got = Inr line"
      and q: "line = None \<or> line = Some [] \<or> queued_line (the line)" by blast
    show ?thesis
    proof (cases "line = None \<or> line = Some []")
      case True
      from "1.IH"(1) [OF False r [symmetric] refl d True]
      obtain buffer' new where
        "listen buffer1 queue reads1 = Inr (buffer', queue @ new)"
        "\<forall>line \<in> set new. queued_line line" by blast
      moreover have "listen buffer queue reads = listen buffer1 queue reads1"
        using listen_step [OF False r d, of queue] True by simp
      ultimately show ?thesis by auto
    next
      case no: False
      from "1.IH"(2) [OF False r [symmetric] refl d no]
      obtain buffer' new where
        "listen buffer1 (queue @ [the line]) reads1 = Inr (buffer', (queue @ [the line]) @ new)"
        "\<forall>line \<in> set new. queued_line line" by blast
      moreover have "listen buffer queue reads = listen buffer1 (queue @ [the line]) reads1"
        using listen_step [OF False r d, of queue] no by simp
      moreover have "queued_line (the line)" using q no by auto
      ultimately have "listen buffer queue reads = Inr (buffer', queue @ (the line # new))"
        "\<forall>l \<in> set (the line # new). queued_line l" by simp_all
      then show ?thesis by blast
    qed
  qed
qed


lemma listen_Cons:
  "listen buffer queue (r # rs) =
     (case readline buffer (r # rs) of
        (got, buffer', reads') \<Rightarrow>
          (case decode_bytearr got of
             Inl e \<Rightarrow> Inl e
           | Inr line \<Rightarrow>
               if line = None \<or> line = Some [] then listen buffer' queue reads'
               else listen buffer' (queue @ [the line]) reads'))"
  by (subst listen.simps) simp

lemma sample_listen:
  "listen [] [] sample_reads = Inr ([0x61, 0x62], [lit ''$UW,1''])"
  by (simp add: sample_reads_def listen_Cons listen_Nil readline_def decode_bytes
        utf8_next_def cont_def strip_def lit_def)

text \<open>
  Claim C9. Decoding a byte input removes every byte in \<open>[0, 31]\<close> and the byte 255,
  decodes the rest as UTF-8 with ill-formed sequences ignored, and strips carriage
  returns and line feeds at both ends. Whatever the buffer, the queue and the chunks
  the device delivers, \<open>listen\<close> returns without an exception when the exit signal is
  set, the queue has only grown at its end, and every line put on it is a non-empty
  text that contains neither a line feed (10) nor a carriage return (13).
\<close>

theorem listener_lines:
  "decode_bytearr (PyBytes bs) =
     Inr (Some (strip [13, 10]
       (utf8_ignore (map unat (filter (\<lambda>c. \<not> (unat c \<le> 31 \<or> unat c = 255)) bs)))))
   \<and> (\<exists>buffer' new. listen buffer queue reads = Inr (buffer', queue @ new)
         \<and> (\<forall>line \<in> set new. line \<noteq> [] \<and> 10 \<notin> set line \<and> 13 \<notin> set line))"
  using decode_bytes [of bs] listen_queue [of buffer queue reads]
  by (simp add: queued_line_def)

text \<open>The theorem on the sample chunks: one line is queued.\<close>

theorem listener_lines_witness:
  "listen [] [] sample_reads = Inr ([0x61, 0x62], [lit ''$UW,1''])
   \<and> lit ''$UW,1'' \<in> set [lit ''$UW,1'']
   \<and> lit ''$UW,1'' \<noteq> [] \<and> 10 \<notin> set (lit ''$UW,1'') \<and> 13 \<notin> set (lit ''$UW,1'')"
proof -
  from listener_lines [of "[]" "[]" "[]" sample_reads] obtain buffer' new where
    run: "listen [] [] sample_reads = Inr (buffer', [] @ new)"
    and good: "\<forall>line \<in> set new. line \<noteq> [] \<and> 10 \<notin> set line \<and> 13 \<notin> set line"
    by blast
  from run sample_listen have "new = [lit ''$UW,1'']" by simp
  with good sample_listen show ?thesis by simp
qed

section \<open>The collector protocol: properties\<close>

text \<open>
  Claim C6. When the lookup answers with status 200 and a body whose \<open>Exists\<close> entry
  is true, \<open>establish_connection\<close> returns the \<open>SensorID\<close> entry of that body
  unchanged (\<open>None\<close> if there is none). When \<open>Exists\<close> is false, it returns the
  \<open>SensorID\<close> entry of the body of the registration response, and no value when the
  registration fails to connect or to decode. It returns no value when the lookup
  fails to connect, when its body is not JSON, and when its status is not 200.
\<close>

theorem establish_connection_result:
  "(map_of items (lit ''Exists'') = Some e \<and> truthy e \<longrightarrow>
      establish_connection (Response 200 (JDict items)) registration
        = Inr (case map_of items (lit ''SensorID'') of Some sid \<Rightarrow> sid | None \<Rightarrow> JNull))
   \<and> (map_of items (lit ''Exists'') = Some e \<and> \<not> truthy e \<longrightarrow>
      establish_connection (Response 200 (JDict items)) (Response status2 (JDict items2))
        = Inr (case map_of items2 (lit ''SensorID'') of Some sid \<Rightarrow> sid | None \<Rightarrow> JNull)
      \<and> establish_connection (Response 200 (JDict items)) ConnectionError = Inr JNull
      \<and> establish_connection (Response 200 (JDict items)) (JSONDecodeError status2)
          = Inr JNull)
   \<and> establish_connection ConnectionError registration = Inr JNull
   \<and> establish_connection (JSONDecodeError status) registration = Inr JNull
   \<and> (status \<noteq> 200 \<longrightarrow>
        establish_connection (Response status data) registration = Inr JNull)"
  by (simp add: establish_connection_def subscript_def dict_get_def)

text \<open>The theorem on a known sensor, a new sensor, a failed registration and a 404.\<close>

theorem establish_connection_result_witness:
  "establish_connection
     (Response 200 (JDict [(lit ''Exists'', JBool True), (lit ''SensorID'', JInt 7)]))
     ConnectionError = Inr (JInt 7)
   \<and> establish_connection
     (Response 200 (JDict [(lit ''Exists'', JBool False)]))
     (Response 201 (JDict [(lit ''SensorID'', JInt 8)])) = Inr (JInt 8)
   \<and> establish_connection (Response 200 (JDict [(lit ''Exists'', JBool False)]))
        ConnectionError = Inr JNull
   \<and> establish_connection (Response 404 (JDict [(lit ''Exists'', JBool True)]))
        ConnectionError = Inr JNull"
proof -
  have t: "map_of [(lit ''Exists'', JBool True), (lit ''SensorID'', JInt 7)] (lit ''Exists'')
             = Some (JBool True) \<and> truthy (JBool True)"
    by (simp add: lit_def)
  have f: "map_of [(lit ''Exists'', JBool False)] (lit ''Exists'') = Some (JBool False)
           \<and> \<not> truthy (JBool False)"
    by simp
  have n: "(404::nat) \<noteq> 200" by simp
  from establish_connection_result
         [of "[(lit ''Exists'', JBool True), (lit ''SensorID'', JInt 7)]" "JBool True"
             ConnectionError] t
  have 1: "establish_connection
     (Response 200 (JDict [(lit ''Exists'', JBool True), (lit ''SensorID'', JInt 7)]))
     ConnectionError = Inr (JInt 7)"
    by (simp add: lit_def)
  from establish_connection_result
         [of "[(lit ''Exists'', JBool False)]" "JBool False" _ 201
             "[(lit ''SensorID'', JInt 8)]"] f
  have 2: "establish_connection
     (Response 200 (JDict [(lit ''Exists'', JBool False)]))
     (Response 201 (JDict [(lit ''SensorID'', JInt 8)])) = Inr (JInt 8)"
    and 3: "establish_connection (Response 200 (JDict [(lit ''Exists'', JBool False)]))
        ConnectionError = Inr JNull"
    by simp_all
  from establish_connection_result [of _ _ ConnectionError _ _ 404
         "JDict [(lit ''Exists'', JBool True)]"] n
  have 4: "establish_connection (Response 404 (JDict [(lit ''Exists'', JBool True)]))
        ConnectionError = Inr JNull"
    by blast
  from 1 2 3 4 show ?thesis by blast
qed

section \<open>The HTTP sender: properties\<close>

lemma status_ok [simp]:
  "lit ''OK'' \<noteq> lit ''FAIL''" "lit ''FAIL'' \<noteq> lit ''OK''"
  "lit ''Status'' \<noteq> lit ''Reason''"
  by (simp_all add: lit_def)


















section \<open>The meter configuration: properties\<close>


















end
